theory Spec2Isabelle
  imports Complex_Main
begin

section \<open>Python values used by the timecode generator\<close>

text \<open>
  The program is a single Python module, \<open>OSC_TimeCode_Generator.py\<close>.  Its integers are
  unbounded (\<open>int\<close>).  Its floats are finite IEEE doubles; every such double is a rational
  number, so a float value is modelled by the rational it denotes (\<open>rat\<close>).  The two
  conversion functions only ever apply \<open>round\<close> to a float, which is exact.

  A Python \<open>str\<close> is modelled as \<open>string\<close>, one \<open>char\<close> per code point; the model
  therefore covers the code points 0..255.
\<close>

datatype error = ZeroDivisionError | ValueError

text \<open>\<open>round(x)\<close> of a float: the nearest integer, a tie going to the even neighbour.\<close>

definition py_round :: "rat \<Rightarrow> int" where
  "py_round x =
     (let f = \<lfloor>x\<rfloor>; r = x - of_int f
      in if r < 1 / 2 then f
         else if 1 / 2 < r then f + 1
         else if even f then f else f + 1)"

text \<open>\<open>a // b\<close> and \<open>a % b\<close> on integers: floor division, raising on a zero divisor.\<close>

definition py_floordiv :: "int \<Rightarrow> int \<Rightarrow> error + int" where
  "py_floordiv a b = (if b = 0 then Inl ZeroDivisionError else Inr (a div b))"

definition py_mod :: "int \<Rightarrow> int \<Rightarrow> error + int" where
  "py_mod a b = (if b = 0 then Inl ZeroDivisionError else Inr (a mod b))"

subsection \<open>Decimal digits and the format specification \<open>02d\<close>\<close>

definition is_digit :: "char \<Rightarrow> bool" where
  "is_digit c = (c \<in> set ''0123456789'')"

definition digit_val :: "char \<Rightarrow> int" where
  "digit_val c = int (of_char c) - 48"

definition digit_char :: "nat \<Rightarrow> char" where
  "digit_char k = ''0123456789'' ! k"

text \<open>The decimal numeral of a natural number, as \<open>str\<close> prints it.\<close>

fun str_nat :: "nat \<Rightarrow> string" where
  "str_nat n = (if n < 10 then [digit_char n] else str_nat (n div 10) @ [digit_char (n mod 10)])"

declare str_nat.simps [simp del]

text \<open>
  \<open>f"{n:02d}"\<close>: the decimal numeral, zero-filled to a minimum width of two; the sign of a
  negative number counts towards the width.
\<close>

definition fmt_02d :: "int \<Rightarrow> string" where
  "fmt_02d n =
     (if n < 0 then CHR ''-'' # str_nat (nat (- n))
      else let s = str_nat (nat n) in replicate (2 - length s) CHR ''0'' @ s)"

section \<open>The framerate table\<close>

text \<open>
  \<open>FRAMERATES\<close> maps a label to its precise float.  The two fractional entries are the
  doubles nearest to the literals \<open>29.97002997002997\<close> and \<open>23.976023976023976\<close>, written
  here as the exact dyadic fractions those doubles denote.
\<close>

definition FRAMERATES :: "string \<rightharpoonup> rat" where
  "FRAMERATES = map_of
     [(''30'', 30),
      (''29.97'', 1054476685978981 / 35184372088832),
      (''25'', 25),
      (''24'', 24),
      (''23.976'', 6748650790265479 / 281474976710656)]"

section \<open>Frame count to timecode string\<close>

text \<open>
  The body of \<open>frames_to_tc_string\<close>, with the operators \<open>%\<close> and \<open>//\<close> as
  parameters, so that the same body can also be run with operators that refuse every
  non-positive right operand.
\<close>

definition frames_to_tc_string_with ::
    "(int \<Rightarrow> int \<Rightarrow> error + int) \<Rightarrow> (int \<Rightarrow> int \<Rightarrow> error + int) \<Rightarrow> int \<Rightarrow> rat \<Rightarrow> error + string" where
  "frames_to_tc_string_with mod_op floordiv_op total_frames fps =
     (let display_fps = py_round fps in
      if display_fps \<le> 0 then Inr ''00:00:00:00''
      else
        let total_frames = max 0 total_frames in
        case mod_op total_frames display_fps of Inl e \<Rightarrow> Inl e | Inr frame_number \<Rightarrow>
        case floordiv_op total_frames display_fps of Inl e \<Rightarrow> Inl e | Inr total_seconds \<Rightarrow>
        case mod_op total_seconds 60 of Inl e \<Rightarrow> Inl e | Inr seconds \<Rightarrow>
        case floordiv_op total_seconds 60 of Inl e \<Rightarrow> Inl e | Inr total_minutes \<Rightarrow>
        case mod_op total_minutes 60 of Inl e \<Rightarrow> Inl e | Inr minutes \<Rightarrow>
        case floordiv_op total_minutes 60 of Inl e \<Rightarrow> Inl e | Inr hours \<Rightarrow>
          Inr (fmt_02d hours @ '':'' @ fmt_02d minutes @ '':'' @ fmt_02d seconds
                 @ '':'' @ fmt_02d frame_number))"

definition frames_to_tc_string :: "int \<Rightarrow> rat \<Rightarrow> error + string" where
  "frames_to_tc_string = frames_to_tc_string_with py_mod py_floordiv"

text \<open>Operators that fail on every right operand that is zero or negative.\<close>

definition guarded_mod :: "int \<Rightarrow> int \<Rightarrow> error + int" where
  "guarded_mod a b = (if b \<le> 0 then Inl ZeroDivisionError else Inr (a mod b))"

definition guarded_floordiv :: "int \<Rightarrow> int \<Rightarrow> error + int" where
  "guarded_floordiv a b = (if b \<le> 0 then Inl ZeroDivisionError else Inr (a div b))"

section \<open>Timecode string to frame count\<close>

text \<open>
  \<open>str.strip()\<close> removes leading and trailing white space; among the code points
  0..255 these are 9..13, 28..32, 133 and 160.
\<close>

definition is_space :: "char \<Rightarrow> bool" where
  "is_space c =
     (let k = (of_char c :: nat)
      in (9 \<le> k \<and> k \<le> 13) \<or> (28 \<le> k \<and> k \<le> 32) \<or> k = 133 \<or> k = 160)"

definition py_strip :: "string \<Rightarrow> string" where
  "py_strip s = rev (dropWhile is_space (rev (dropWhile is_space s)))"

text \<open>
  The pattern \<open>(\d{1,2}):(\d{1,2}):(\d{1,2})[:;.](\d{1,2})\<close>, applied by \<open>re.match\<close>
  at the start of the string, as a backtracking matcher.  \<open>digits_1_2\<close> lists the ways
  \<open>\d{1,2}\<close> can consume a prefix, the greedy one (two digits) first; \<open>one_of\<close> consumes
  one character of a class.  \<open>tc_regex_matches\<close> lists all matches in the order the
  engine tries them, and \<open>re_match_tc\<close> returns the groups of the first one.
\<close>

definition digits_1_2 :: "string \<Rightarrow> (string \<times> string) list" where
  "digits_1_2 s =
     (case s of
        [] \<Rightarrow> []
      | a # t \<Rightarrow>
          (case t of
             [] \<Rightarrow> []
           | b # r \<Rightarrow> (if is_digit a \<and> is_digit b then [([a, b], r)] else []))
          @ (if is_digit a then [([a], t)] else []))"

definition one_of :: "string \<Rightarrow> string \<Rightarrow> string list" where
  "one_of cs s = (case s of [] \<Rightarrow> [] | c # r \<Rightarrow> (if c \<in> set cs then [r] else []))"

definition tc_regex_matches :: "string \<Rightarrow> (string \<times> string \<times> string \<times> string) list" where
  "tc_regex_matches s =
     List.bind (digits_1_2 s) (\<lambda>(g1, r1).
     List.bind (one_of '':'' r1) (\<lambda>r2.
     List.bind (digits_1_2 r2) (\<lambda>(g2, r3).
     List.bind (one_of '':'' r3) (\<lambda>r4.
     List.bind (digits_1_2 r4) (\<lambda>(g3, r5).
     List.bind (one_of '':;.'' r5) (\<lambda>r6.
     List.bind (digits_1_2 r6) (\<lambda>(g4, r7).
       [(g1, g2, g3, g4)])))))))"

definition re_match_tc :: "string \<Rightarrow> (string \<times> string \<times> string \<times> string) option" where
  "re_match_tc s = (case tc_regex_matches s of [] \<Rightarrow> None | m # _ \<Rightarrow> Some m)"

text \<open>
  \<open>int(s)\<close> on the strings that reach it here, the groups of the pattern: a non-empty
  string of decimal digits yields its value.  On any other string the model raises
  \<open>ValueError\<close> (Python accepts a few further forms, such as a sign or surrounding
  blanks, which a \<open>\d{1,2}\<close> group never holds).
\<close>

definition decimal_value :: "string \<Rightarrow> int" where
  "decimal_value s = foldl (\<lambda>acc c. 10 * acc + digit_val c) 0 s"

definition py_int :: "string \<Rightarrow> error + int" where
  "py_int s =
     (if s \<noteq> [] \<and> list_all is_digit s then Inr (decimal_value s) else Inl ValueError)"

text \<open>
  The \<open>try\<close> block of \<open>tc_string_to_frames\<close>: the four conversions, the range check
  and the arithmetic.  A \<open>ValueError\<close> leaves it as \<open>Inl\<close>.
\<close>

definition tc_fields_to_frames :: "string \<times> string \<times> string \<times> string \<Rightarrow> int \<Rightarrow> error + int option" where
  "tc_fields_to_frames groups display_fps =
     (case groups of (g1, g2, g3, g4) \<Rightarrow>
        case py_int g1 of Inl e \<Rightarrow> Inl e | Inr h \<Rightarrow>
        case py_int g2 of Inl e \<Rightarrow> Inl e | Inr m \<Rightarrow>
        case py_int g3 of Inl e \<Rightarrow> Inl e | Inr s \<Rightarrow>
        case py_int g4 of Inl e \<Rightarrow> Inl e | Inr f \<Rightarrow>
          if f \<ge> display_fps \<or> m \<ge> 60 \<or> s \<ge> 60 \<or> h < 0 \<or> m < 0 \<or> s < 0 \<or> f < 0
          then Inr None
          else
            let total_seconds = h * 3600 + m * 60 + s;
                total_frames = total_seconds * display_fps + f
            in Inr (Some total_frames))"

definition tc_string_to_frames :: "string \<Rightarrow> rat \<Rightarrow> int option" where
  "tc_string_to_frames tc_string fps =
     (let display_fps = py_round fps in
      if display_fps \<le> 0 then None
      else
        case re_match_tc (py_strip tc_string) of
          None \<Rightarrow> None
        | Some groups \<Rightarrow>
            (case tc_fields_to_frames groups display_fps of
               Inl e \<Rightarrow> None
             | Inr result \<Rightarrow> result))"

section \<open>The formatting rule as the specification words it\<close>

text \<open>
  The specification describes the output as six quotients and remainders, each
  "zero-padded to two digits" and joined by colons.  \<open>format_spec\<close> follows those words;
  it is compared with \<open>frames_to_tc_string\<close> below.
\<close>

definition zero_pad2 :: "int \<Rightarrow> string" where
  "zero_pad2 k = (if k < 10 then CHR ''0'' # str_nat (nat k) else str_nat (nat k))"

definition format_spec :: "int \<Rightarrow> int \<Rightarrow> string" where
  "format_spec frames d =
     (let frame = frames mod d;
          totalSeconds = frames div d;
          seconds = totalSeconds mod 60;
          totalMinutes = totalSeconds div 60;
          minutes = totalMinutes mod 60;
          hours = totalMinutes div 60
      in zero_pad2 hours @ '':'' @ zero_pad2 minutes @ '':'' @ zero_pad2 seconds
           @ '':'' @ zero_pad2 frame)"

section \<open>The timecode field pattern as the specification words it\<close>

text \<open>
  A field is "one to two digits".  A field followed by \<open>rest\<close> is complete when it
  cannot take a further digit: it has two digits already, or \<open>rest\<close> does not start
  with a digit.
\<close>

definition is_field :: "string \<Rightarrow> bool" where
  "is_field g = ((length g = 1 \<or> length g = 2) \<and> list_all is_digit g)"

definition field_complete :: "string \<Rightarrow> string \<Rightarrow> bool" where
  "field_complete g rest =
     (length g = 2 \<or> (case rest of [] \<Rightarrow> True | c # _ \<Rightarrow> \<not> is_digit c))"

section \<open>Reading the fields of a formatted timecode\<close>

text \<open>
  \<open>split_colon s\<close> is \<open>s.split(':')\<close>: the pieces of \<open>s\<close> between its colons.  It is
  not part of the program; it serves to state what each field of an output holds.
\<close>

fun split_colon :: "string \<Rightarrow> string list" where
  "split_colon [] = [[]]"
| "split_colon (c # cs) =
     (if c = CHR '':'' then [] # split_colon cs
      else (case split_colon cs of [] \<Rightarrow> [[c]] | w # ws \<Rightarrow> (c # w) # ws))"

section \<open>The application object\<close>

text \<open>
  \<open>OscTimecodeGeneratorApp\<close> holds the playback state.  The record keeps the attributes
  the playback methods read and write; the Tk variables are represented by their values.
  Widgets appear by their observable effect only: \<open>label_updates\<close> collects the texts
  handed to the timecode label, \<open>osc_sent\<close> the (address, payload) pairs handed to the
  OSC client, \<open>error_boxes\<close> the titles of the error dialogs raised.  \<open>app_fps\<close> is
  the attribute \<open>fps\<close>, \<open>osc_client\<close> tells whether a client object is present and
  \<open>timecode_label\<close> whether the label widget exists.  The status bar, button captions
  and console output are not modelled.  The last two fields belong to the loop thread:
  its local variable \<open>last_time\<close> and the durations it has slept.
\<close>

record app =
  osc_client :: bool
  is_running :: bool
  start_frame :: int
  current_frame :: int
  app_fps :: rat
  osc_address_var :: string
  speed_var :: rat
  offset_var :: string
  timecode_label :: bool
  label_updates :: "string list"
  osc_sent :: "(string \<times> string) list"
  error_boxes :: "string list"
  last_time :: rat
  slept :: "rat list"

definition update_timecode_display :: "string \<Rightarrow> app \<Rightarrow> app" where
  "update_timecode_display tc_string a =
     (if timecode_label a then a\<lparr>label_updates := label_updates a @ [tc_string]\<rparr> else a)"

text \<open>
  \<open>send_osc_message\<close>: nothing is sent without a client or when the address is empty or
  does not start with a slash; an exception of the transport (\<open>send_raises\<close>) is caught
  and only reported.
\<close>

definition send_osc_message :: "bool \<Rightarrow> string \<Rightarrow> app \<Rightarrow> app" where
  "send_osc_message send_raises tc_string a =
     (if osc_client a then
        (case osc_address_var a of
           [] \<Rightarrow> a
         | c # _ \<Rightarrow>
             if c = CHR ''/'' then
               (if send_raises then a
                else a\<lparr>osc_sent := osc_sent a @ [(osc_address_var a, tc_string)]\<rparr>)
             else a)
      else a)"

text \<open>
  \<open>toggle_play_pause\<close>: when running, clear the flag (the bounded join of the thread
  has no effect on the state); otherwise refuse with an error dialog if the client or
  the address is unusable, else set the flag, which starts the loop thread.
\<close>

definition toggle_play_pause :: "app \<Rightarrow> app" where
  "toggle_play_pause a =
     (if is_running a then a\<lparr>is_running := False\<rparr>
      else if osc_client a then
        (case osc_address_var a of
           [] \<Rightarrow> a\<lparr>error_boxes := error_boxes a @ [''Error'']\<rparr>
         | c # _ \<Rightarrow>
             if c = CHR ''/'' then a\<lparr>is_running := True\<rparr>
             else a\<lparr>error_boxes := error_boxes a @ [''Error'']\<rparr>)
      else a\<lparr>error_boxes := error_boxes a @ [''Error'']\<rparr>)"

definition parse_and_set_offset :: "app \<Rightarrow> app" where
  "parse_and_set_offset a =
     (let offset_str = offset_var a;
          calculated_frames = tc_string_to_frames offset_str (app_fps a)
      in case calculated_frames of
           None \<Rightarrow>
             a\<lparr>error_boxes := error_boxes a @ [''Invalid Offset''],
               start_frame := 0,
               offset_var := ''00:00:00:00''\<rparr>
         | Some frames \<Rightarrow> a\<lparr>start_frame := frames\<rparr>)"

definition reset_timecode :: "bool \<Rightarrow> app \<Rightarrow> error + app" where
  "reset_timecode send_raises a0 =
     (let a1 = (if is_running a0 then toggle_play_pause a0 else a0);
          a2 = parse_and_set_offset a1;
          a3 = a2\<lparr>current_frame := start_frame a2\<rparr>
      in case frames_to_tc_string (current_frame a3) (app_fps a3) of
           Inl e \<Rightarrow> Inl e
         | Inr tc_string \<Rightarrow>
             let a4 = update_timecode_display tc_string a3;
                 a5 = (if osc_client a4 then send_osc_message send_raises tc_string a4 else a4)
             in Inr a5)"

section \<open>The tick loop\<close>

text \<open>
  The loop runs in its own thread while the GUI thread may write \<open>is_running\<close>,
  \<open>speed_var\<close>, \<open>fps\<close>, the client and the address.  One \<open>tick\<close> record gives what one
  iteration observes: those shared attributes as they stand when the iteration starts,
  the reading of \<open>time.perf_counter()\<close> it takes, whether the transport raises, and
  \<open>is_running\<close> as re-read after the sleep.  Float arithmetic is taken exact.
\<close>

record tick =
  t_is_running :: bool
  t_speed_var :: rat
  t_fps :: rat
  t_osc_client :: bool
  t_osc_address_var :: string
  t_now :: rat
  t_send_raises :: bool
  t_is_running_after :: bool

definition observe :: "tick \<Rightarrow> app \<Rightarrow> app" where
  "observe t a =
     a\<lparr>is_running := t_is_running t,
       speed_var := t_speed_var t,
       app_fps := t_fps t,
       osc_client := t_osc_client t,
       osc_address_var := t_osc_address_var t\<rparr>"

text \<open>
  One pass through the body of the \<open>while\<close> loop.  The result carries the new state and
  whether the loop goes on (\<open>continue\<close>, or no \<open>break\<close> at the end).  \<open>current_frame\<close>
  is an integer throughout, so \<open>int(round(self.current_frame))\<close> is \<open>current_frame\<close>.
\<close>

definition loop_body :: "tick \<Rightarrow> app \<Rightarrow> error + (app \<times> bool)" where
  "loop_body t a0 =
     (let a = observe t a0;
          current_speed_percent = speed_var a;
          base_fps = app_fps a;
          current_speed_multiplier = current_speed_percent / 100
      in if current_speed_multiplier \<le> 0 \<or> base_fps \<le> 0
         then Inr (a\<lparr>slept := slept a @ [1 / 20], last_time := t_now t\<rparr>, True)
         else
           let effective_fps = base_fps * current_speed_multiplier in
           if effective_fps = 0 then Inl ZeroDivisionError
           else
             let frame_duration = 1 / effective_fps in
             case frames_to_tc_string (current_frame a) base_fps of
               Inl e \<Rightarrow> Inl e
             | Inr tc_string \<Rightarrow>
                 let a1 = update_timecode_display tc_string a;
                     a2 = send_osc_message (t_send_raises t) tc_string a1;
                     a3 = a2\<lparr>current_frame := current_frame a2 + 1\<rparr>;
                     next_frame_time = last_time a3 + frame_duration;
                     current_time = t_now t;
                     sleep_time = next_frame_time - current_time;
                     a4 = (if sleep_time > 0 then a3\<lparr>slept := slept a3 @ [sleep_time]\<rparr> else a3);
                     a5 = a4\<lparr>last_time := next_frame_time\<rparr>
                 in Inr (a5, t_is_running_after t))"

text \<open>
  The \<open>while self.is_running\<close> loop over the observations of its successive iterations.
  When the list ends the state reached so far is returned: the result describes a
  prefix of the run.
\<close>

fun while_running :: "tick list \<Rightarrow> app \<Rightarrow> error + app" where
  "while_running [] a = Inr a"
| "while_running (t # ts) a =
     (if t_is_running t then
        (case loop_body t a of
           Inl e \<Rightarrow> Inl e
         | Inr (a', go_on) \<Rightarrow> if go_on then while_running ts a' else Inr a')
      else Inr (observe t a))"

definition timecode_loop :: "int \<Rightarrow> rat \<Rightarrow> tick list \<Rightarrow> app \<Rightarrow> error + app" where
  "timecode_loop initial_frame started ts a =
     while_running ts (a\<lparr>current_frame := initial_frame, last_time := started\<rparr>)"

section \<open>A concrete state and concrete observations\<close>

text \<open>
  The state \<open>__init__\<close> builds before its closing call of \<open>reset_timecode\<close>, with the
  default client in place and the widgets created, and a tick observed at a given speed
  and clock reading with the default settings.
\<close>

definition app_after_setup :: app where
  "app_after_setup =
     \<lparr>osc_client = True, is_running = False, start_frame = 0, current_frame = 0,
      app_fps = 30, osc_address_var = ''/timecode'', speed_var = 100,
      offset_var = ''00:00:00:00'', timecode_label = True, label_updates = [],
      osc_sent = [], error_boxes = [], last_time = 0, slept = []\<rparr>"

definition tick_at :: "rat \<Rightarrow> rat \<Rightarrow> tick" where
  "tick_at speed now =
     \<lparr>t_is_running = True, t_speed_var = speed, t_fps = 30, t_osc_client = True,
      t_osc_address_var = ''/timecode'', t_now = now, t_send_raises = False,
      t_is_running_after = True\<rparr>"

section \<open>Properties\<close>

lemma floor_rat_numeral [simp]: "\<lfloor>numeral a / numeral b :: rat\<rfloor> = numeral a div numeral b"
  by (metis floor_divide_of_int_eq of_int_numeral)

lemma py_round_of_int [simp]: "py_round (of_int d) = d"
  by (simp add: py_round_def Let_def)

lemma py_round_numeral [simp]: "py_round (numeral k) = numeral k"
  using py_round_of_int [of "numeral k"] by simp

lemma length_str_nat_pos: "0 < length (str_nat n)"
  by (subst str_nat.simps) simp

lemma length_str_nat_small: "n < 10 \<Longrightarrow> length (str_nat n) = 1"
  by (subst str_nat.simps) simp

lemma length_str_nat_large: "10 \<le> n \<Longrightarrow> 2 \<le> length (str_nat n)"
  using length_str_nat_pos [of "n div 10"] by (subst str_nat.simps) (simp add: Suc_le_eq)

lemma fmt_02d_zero_pad2: "0 \<le> k \<Longrightarrow> fmt_02d k = zero_pad2 k"
proof (cases "k < 10")
  case True
  assume "0 \<le> k"
  with True have "length (str_nat (nat k)) = 1"
    by (intro length_str_nat_small) simp
  with True \<open>0 \<le> k\<close> show ?thesis
    by (simp add: fmt_02d_def zero_pad2_def Let_def)
next
  case False
  then have "2 \<le> length (str_nat (nat k))"
    by (intro length_str_nat_large) simp
  with False show ?thesis
    by (simp add: fmt_02d_def zero_pad2_def Let_def)
qed

lemma frames_to_tc_string_pos:
  assumes "0 < py_round fps"
  shows "frames_to_tc_string n fps =
           Inr (fmt_02d (max 0 n div py_round fps div 60 div 60) @ '':''
                @ fmt_02d (max 0 n div py_round fps div 60 mod 60) @ '':''
                @ fmt_02d (max 0 n div py_round fps mod 60) @ '':''
                @ fmt_02d (max 0 n mod py_round fps))"
  using assms
  by (simp add: frames_to_tc_string_def frames_to_tc_string_with_def Let_def
      py_mod_def py_floordiv_def)

lemma frames_to_tc_string_guarded:
  "frames_to_tc_string_with guarded_mod guarded_floordiv n fps = frames_to_tc_string n fps"
  by (simp add: frames_to_tc_string_def frames_to_tc_string_with_def Let_def
      py_mod_def py_floordiv_def guarded_mod_def guarded_floordiv_def)



lemma py_round_2997 [simp]: "py_round (1054476685978981 / 35184372088832) = 30"
  by (simp add: py_round_def Let_def)

lemma py_round_23976 [simp]: "py_round (6748650790265479 / 281474976710656) = 24"
  by (simp add: py_round_def Let_def)

lemmas eval_defs =
  frames_to_tc_string_def frames_to_tc_string_with_def py_mod_def py_floordiv_def
  fmt_02d_def str_nat.simps digit_char_def Let_def
  tc_string_to_frames_def py_strip_def is_space_def re_match_tc_def tc_regex_matches_def
  digits_1_2_def one_of_def is_digit_def tc_fields_to_frames_def py_int_def digit_val_def
  decimal_value_def

text \<open>
  Claim C2.  For a non-negative frame count and a framerate whose precise value rounds to
  \<open>d \<ge> 1\<close>, \<open>frames_to_tc_string\<close> returns the string the specification describes:
  frame, seconds and minutes as remainders, hours as the last quotient (not wrapped at
  24), each zero-padded to two digits and joined by colons.  The three examples of the
  specification are part of the statement.
\<close>

theorem frames_to_tc_string_decomposition:
  assumes "0 \<le> frames" and "py_round fps = d" and "1 \<le> d"
  shows "frames_to_tc_string frames fps = Inr (format_spec frames d)
         \<and> frames_to_tc_string 0 30 = Inr ''00:00:00:00''
         \<and> frames_to_tc_string 90 30 = Inr ''00:00:03:00''
         \<and> frames_to_tc_string 29 30 = Inr ''00:00:00:29''"
proof -
  have pos: "0 < py_round fps" using assms by simp
  have nn: "0 \<le> frames div d div 60 div 60" "0 \<le> frames div d div 60 mod 60"
    "0 \<le> frames div d mod 60" "0 \<le> frames mod d"
    using assms by (simp_all add: pos_imp_zdiv_nonneg_iff)
  have "frames_to_tc_string frames fps = Inr (format_spec frames d)"
    using assms nn
    by (simp add: frames_to_tc_string_pos [OF pos] format_spec_def Let_def fmt_02d_zero_pad2)
  moreover have "frames_to_tc_string 0 30 = Inr ''00:00:00:00''"
    by (simp add: eval_defs)
  moreover have "frames_to_tc_string 90 30 = Inr ''00:00:03:00''"
    by (simp add: eval_defs)
  moreover have "frames_to_tc_string 29 30 = Inr ''00:00:00:29''"
    by (simp add: eval_defs)
  ultimately show ?thesis by simp
qed

theorem frames_to_tc_string_decomposition_witness:
  "(0::int) \<le> 2592090 \<and> py_round 30 = 30 \<and> (1::int) \<le> 30
   \<and> frames_to_tc_string 2592090 30 = Inr (format_spec 2592090 30)
   \<and> format_spec 2592090 30 = ''24:00:03:00''"
  using frames_to_tc_string_decomposition [of 2592090 30 30]
  by (simp add: format_spec_def zero_pad2_def str_nat.simps digit_char_def)


text \<open>
  Claim C6.  \<open>frames_to_tc_string\<close> always returns a string, never an error; running
  its body with operators that refuse every non-positive divisor gives the same result, so
  no \<open>%\<close> or \<open>//\<close> ever sees one.  A framerate that rounds to zero or below yields
  \<open>00:00:00:00\<close>, and a negative frame count is treated as 0.
\<close>

theorem frames_to_tc_string_total:
  "(\<exists>s. frames_to_tc_string n fps = Inr s)
   \<and> frames_to_tc_string_with guarded_mod guarded_floordiv n fps = frames_to_tc_string n fps
   \<and> (py_round fps \<le> 0 \<longrightarrow> frames_to_tc_string n fps = Inr ''00:00:00:00'')
   \<and> (n < 0 \<longrightarrow> frames_to_tc_string n fps = frames_to_tc_string 0 fps)"
proof -
  have "\<exists>s. frames_to_tc_string n fps = Inr s"
    by (cases "0 < py_round fps")
      (simp_all add: frames_to_tc_string_pos,
        simp add: frames_to_tc_string_def frames_to_tc_string_with_def)
  moreover have "py_round fps \<le> 0 \<longrightarrow> frames_to_tc_string n fps = Inr ''00:00:00:00''"
    by (simp add: frames_to_tc_string_def frames_to_tc_string_with_def)
  moreover have "n < 0 \<longrightarrow> frames_to_tc_string n fps = frames_to_tc_string 0 fps"
    by (simp add: frames_to_tc_string_def frames_to_tc_string_with_def Let_def)
  ultimately show ?thesis
    by (simp add: frames_to_tc_string_guarded)
qed

theorem frames_to_tc_string_total_witness:
  "py_round 0 \<le> 0 \<and> (-5::int) < 0
   \<and> frames_to_tc_string (-5) 0 = Inr ''00:00:00:00''
   \<and> frames_to_tc_string (-5) 30 = frames_to_tc_string 0 30
   \<and> frames_to_tc_string_with guarded_mod guarded_floordiv (-5) 30 = Inr ''00:00:00:00''"
proof -
  have h: "py_round 0 \<le> 0"
    by (simp add: py_round_def)
  have a: "frames_to_tc_string (-5) 0 = Inr ''00:00:00:00''"
    using frames_to_tc_string_total [of "-5" 0] h by blast
  have b: "frames_to_tc_string (-5) 30 = frames_to_tc_string 0 30"
    and c: "frames_to_tc_string_with guarded_mod guarded_floordiv (-5) 30 = frames_to_tc_string (-5) 30"
    using frames_to_tc_string_total [of "-5" 30] by simp_all
  have d: "frames_to_tc_string 0 30 = Inr ''00:00:00:00''"
    by (simp add: eval_defs)
  from h a b c d show ?thesis by simp
qed

lemma is_digit_not_sep: "is_digit c \<Longrightarrow> c \<notin> set '':;.''"
  by (auto simp: is_digit_def)

lemma is_digit_not_space: "is_digit c \<Longrightarrow> \<not> is_space c"
  by (auto simp: is_digit_def is_space_def)

lemma is_digit_val: "is_digit c \<Longrightarrow> 0 \<le> digit_val c \<and> digit_val c \<le> 9"
  by (auto simp: is_digit_def digit_val_def)

lemma is_field_cases:
  assumes "is_field g"
  obtains a where "g = [a]" "is_digit a"
  | a b where "g = [a, b]" "is_digit a" "is_digit b"
proof -
  from assms have len: "length g = 1 \<or> length g = 2" and dig: "list_all is_digit g"
    by (simp_all add: is_field_def)
  from len show thesis
  proof
    assume "length g = 1"
    then obtain a where "g = [a]" by (cases g) auto
    with dig that(1) show thesis by simp
  next
    assume "length g = 2"
    then obtain a b where "g = [a, b]"
      by (cases g; cases "tl g") auto
    with dig that(2) show thesis by simp
  qed
qed

lemma digits_then_sep:
  assumes "is_field g" and "c \<in> set cs" and "set cs \<subseteq> set '':;.''"
  shows "List.bind (digits_1_2 (g @ c # r)) (\<lambda>(g', r1). List.bind (one_of cs r1) (k g')) = k g r"
proof -
  have c: "\<not> is_digit c"
    using assms(2,3) is_digit_not_sep by blast
  from assms(1) show ?thesis
  proof (cases rule: is_field_cases)
    case (1 a)
    with c assms(2) show ?thesis
      by (simp add: digits_1_2_def one_of_def)
  next
    case (2 a b)
    have "b \<notin> set cs"
      using 2(3) assms(3) is_digit_not_sep by blast
    with 2 assms(2) show ?thesis
      by (simp add: digits_1_2_def one_of_def)
  qed
qed

lemma digits_at_end:
  assumes "is_field g" and "field_complete g rest"
  shows "\<exists>more. List.bind (digits_1_2 (g @ rest)) (\<lambda>(g4, r7). [F g4]) = F g # more"
  using assms(1)
proof (cases rule: is_field_cases)
  case (1 a)
  with assms(2) show ?thesis
    by (cases rest) (simp_all add: digits_1_2_def field_complete_def)
next
  case (2 a b)
  then show ?thesis
    by (simp add: digits_1_2_def)
qed

lemma re_match_tc_fields:
  assumes "is_field g1" "is_field g2" "is_field g3" "is_field g4"
    and "sep \<in> set '':;.''" and "field_complete g4 rest"
  shows "re_match_tc (g1 @ '':'' @ g2 @ '':'' @ g3 @ [sep] @ g4 @ rest) = Some (g1, g2, g3, g4)"
proof -
  obtain more where
    "List.bind (digits_1_2 (g4 @ rest)) (\<lambda>(g, r7). [(g1, g2, g3, g)]) = (g1, g2, g3, g4) # more"
    using digits_at_end [OF assms(4) assms(6), of "\<lambda>g. (g1, g2, g3, g)"] by blast
  then have "tc_regex_matches (g1 @ '':'' @ g2 @ '':'' @ g3 @ [sep] @ g4 @ rest)
      = (g1, g2, g3, g4) # more"
    using assms(5)
    by (simp add: tc_regex_matches_def
        digits_then_sep [OF assms(1), of _ "'':''"]
        digits_then_sep [OF assms(2), of _ "'':''"]
        digits_then_sep [OF assms(3), of _ "'':;.''"])
  then show ?thesis
    by (simp add: re_match_tc_def)
qed

lemma decimal_value_field:
  assumes "is_field g"
  shows "0 \<le> decimal_value g"
  using assms
proof (cases rule: is_field_cases)
  case (1 a)
  then show ?thesis using is_digit_val [of a] by (simp add: decimal_value_def)
next
  case (2 a b)
  then show ?thesis using is_digit_val [of a] is_digit_val [of b]
    by (simp add: decimal_value_def)
qed

lemma py_int_field: "is_field g \<Longrightarrow> py_int g = Inr (decimal_value g)"
  by (auto simp: py_int_def is_field_def)

lemma tc_fields_to_frames_fields:
  assumes "is_field g1" "is_field g2" "is_field g3" "is_field g4"
  shows "tc_fields_to_frames (g1, g2, g3, g4) d =
           Inr (if decimal_value g4 \<ge> d \<or> decimal_value g2 \<ge> 60 \<or> decimal_value g3 \<ge> 60
                then None
                else Some (decimal_value g1 * 3600 * d + decimal_value g2 * 60 * d
                           + decimal_value g3 * d + decimal_value g4))"
  using assms decimal_value_field [of g1] decimal_value_field [of g2]
    decimal_value_field [of g3] decimal_value_field [of g4]
  by (simp add: tc_fields_to_frames_def py_int_field Let_def algebra_simps)

lemma tc_string_to_frames_fields:
  assumes "0 < py_round fps"
    and "is_field g1" "is_field g2" "is_field g3" "is_field g4"
    and "sep \<in> set '':;.''" and "field_complete g4 rest"
    and "py_strip text = g1 @ '':'' @ g2 @ '':'' @ g3 @ [sep] @ g4 @ rest"
  shows "tc_string_to_frames text fps =
           (if decimal_value g4 \<ge> py_round fps \<or> decimal_value g2 \<ge> 60 \<or> decimal_value g3 \<ge> 60
            then None
            else Some (decimal_value g1 * 3600 * py_round fps + decimal_value g2 * 60 * py_round fps
                       + decimal_value g3 * py_round fps + decimal_value g4))"
proof -
  have m: "re_match_tc (py_strip text) = Some (g1, g2, g3, g4)"
    unfolding assms(8) using assms(2-7) by (rule re_match_tc_fields)
  have "tc_string_to_frames text fps =
      (case tc_fields_to_frames (g1, g2, g3, g4) (py_round fps) of Inl e \<Rightarrow> None | Inr r \<Rightarrow> r)"
    using assms(1) by (simp add: tc_string_to_frames_def Let_def m)
  then show ?thesis
    by (simp add: tc_fields_to_frames_fields [OF assms(2-5)])
qed

text \<open>
  Claim C3.  Let the stripped input start with four fields of one or two digits, the
  first three followed by a colon and the third by one of \<open>: ; .\<close>, the last field
  taking every digit it can.  With \<open>h\<close>, \<open>m\<close>, \<open>s\<close>, \<open>f\<close> the values of the fields and
  \<open>d \<ge> 1\<close> the display rate, \<open>tc_string_to_frames\<close> returns \<open>None\<close> when \<open>f \<ge> d\<close>,
  \<open>m \<ge> 60\<close> or \<open>s \<ge> 60\<close>, and \<open>h*3600*d + m*60*d + s*d + f\<close> otherwise.  The three
  examples of the specification are part of the statement.
\<close>

theorem tc_string_to_frames_matched:
  assumes "py_round fps = d" and "1 \<le> d"
    and "is_field hh" "is_field mm" "is_field ss" "is_field ff"
    and "sep \<in> set '':;.''" and "field_complete ff rest"
    and "py_strip text = hh @ '':'' @ mm @ '':'' @ ss @ [sep] @ ff @ rest"
    and "h = decimal_value hh" "m = decimal_value mm" "s = decimal_value ss" "f = decimal_value ff"
  shows "tc_string_to_frames text fps =
           (if f \<ge> d \<or> m \<ge> 60 \<or> s \<ge> 60 then None
            else Some (h * 3600 * d + m * 60 * d + s * d + f))
         \<and> tc_string_to_frames ''00:00:01:15'' 30 = Some 45
         \<and> tc_string_to_frames ''00:00:00:30'' 30 = None
         \<and> tc_string_to_frames ''bad'' 30 = None"
proof -
  have pos: "0 < py_round fps" using assms(1,2) by simp
  have "tc_string_to_frames text fps =
           (if f \<ge> d \<or> m \<ge> 60 \<or> s \<ge> 60 then None
            else Some (h * 3600 * d + m * 60 * d + s * d + f))"
    using tc_string_to_frames_fields [OF pos assms(3-9)] assms(1,10-13) by simp
  moreover have "tc_string_to_frames ''00:00:01:15'' 30 = Some 45"
    by (simp add: eval_defs)
  moreover have "tc_string_to_frames ''00:00:00:30'' 30 = None"
    by (simp add: eval_defs)
  moreover have "tc_string_to_frames ''bad'' 30 = None"
    by (simp add: eval_defs)
  ultimately show ?thesis by simp
qed

theorem tc_string_to_frames_matched_witness:
  "py_round 25 = 25 \<and> (1::int) \<le> 25
   \<and> is_field ''01'' \<and> is_field ''2'' \<and> is_field ''03'' \<and> is_field ''7''
   \<and> CHR '';'' \<in> set '':;.'' \<and> field_complete ''7'' []
   \<and> py_strip '' 01:2:03;7 '' = ''01'' @ '':'' @ ''2'' @ '':'' @ ''03'' @ [CHR '';''] @ ''7'' @ []
   \<and> decimal_value ''01'' = 1 \<and> decimal_value ''2'' = 2 \<and> decimal_value ''03'' = 3
   \<and> decimal_value ''7'' = 7
   \<and> tc_string_to_frames '' 01:2:03;7 '' 25 = Some 93082"
proof -
  have a: "py_round 25 = 25" "(1::int) \<le> 25" by simp_all
  have b: "is_field ''01''" "is_field ''2''" "is_field ''03''" "is_field ''7''"
    by (simp_all add: is_field_def is_digit_def)
  have c: "CHR '';'' \<in> set '':;.''" "field_complete ''7'' []"
    by (simp_all add: field_complete_def)
  have d: "py_strip '' 01:2:03;7 '' = ''01'' @ '':'' @ ''2'' @ '':'' @ ''03'' @ [CHR '';''] @ ''7'' @ []"
    by (simp add: py_strip_def is_space_def)
  have e: "decimal_value ''01'' = 1" "decimal_value ''2'' = 2" "decimal_value ''03'' = 3"
    "decimal_value ''7'' = 7"
    by (simp_all add: decimal_value_def digit_val_def)
  have "tc_string_to_frames '' 01:2:03;7 '' 25 = Some 93082"
    using tc_string_to_frames_matched [OF a b c d refl refl refl refl] e by simp
  with a b c d e show ?thesis by simp
qed

text \<open>
  Claim C4.  The claim says that any content besides the four fields and their
  separators makes \<open>tc_string_to_frames\<close> return \<open>None\<close>.  The pattern is applied with
  \<open>re.match\<close> and has no end anchor, so text after the fourth field is ignored:
  \<open>00:00:01:15xyz\<close> is accepted with the value of \<open>00:00:01:15\<close>, and in
  \<open>00:00:01:123\<close> the frame field is read as 12 and the final 3 is dropped.
\<close>

theorem tc_string_to_frames_trailing_text:
  "tc_string_to_frames ''00:00:01:15xyz'' 30 = Some 45
   \<and> tc_string_to_frames ''00:00:01:15'' 30 = Some 45
   \<and> tc_string_to_frames ''00:00:01:123'' 30 = Some 42
   \<and> tc_string_to_frames ''00:00:00:30'' 30 = None"
  by (simp add: eval_defs)

lemma decimal_value_snoc: "decimal_value (s @ [c]) = 10 * decimal_value s + digit_val c"
  by (simp add: decimal_value_def)

lemma zeros_digits: "list_all is_digit (replicate j CHR ''0'')"
  by (induction j) (simp_all add: is_digit_def)

lemma decimal_value_zeros: "decimal_value (replicate j CHR ''0'' @ s) = decimal_value s"
proof -
  have "foldl (\<lambda>acc c. 10 * acc + digit_val c) 0 (replicate j CHR ''0'') = 0"
    by (induction j) (simp_all add: digit_val_def)
  then show ?thesis by (simp add: decimal_value_def)
qed

lemma ring_aux:
  fixes a b c d r :: int
  shows "a * 3600 * d + b * 60 * d + c * d + r = ((a * 60 + b) * 60 + c) * d + r"
  by (simp add: algebra_simps)

lemma time_recompose:
  fixes n d :: int
  shows "(n div d div 60 div 60) * 3600 * d + (n div d div 60 mod 60) * 60 * d
           + (n div d mod 60) * d + n mod d = n"
proof -
  define t where "t = n div d"
  define u where "u = t div 60"
  have e1: "u div 60 * 60 + u mod 60 = u" by simp
  have e2: "u * 60 + t mod 60 = t" by (simp add: u_def)
  have e3: "t * d + n mod d = n" by (simp add: t_def)
  have "u div 60 * 3600 * d + u mod 60 * 60 * d + t mod 60 * d + n mod d
      = ((u div 60 * 60 + u mod 60) * 60 + t mod 60) * d + n mod d"
    by (rule ring_aux)
  also have "\<dots> = n"
    by (simp only: e1 e2 e3)
  finally show ?thesis by (simp only: t_def u_def)
qed

lemma hours_bound:
  fixes n d :: int
  assumes "0 < d" and "n < 24 * 3600 * d"
  shows "n div d div 60 div 60 < 24"
proof -
  have "d * (n div d) + n mod d = n" by simp
  moreover have "0 \<le> n mod d" using assms(1) by simp
  ultimately have "d * (n div d) \<le> n" by linarith
  with assms(2) have "d * (n div d) < d * 86400" by simp
  with assms(1) have "n div d < 86400" by simp
  then show ?thesis by arith
qed

lemma cases10:
  assumes "k < (10::nat)"
  obtains "k = 0" | "k = 1" | "k = 2" | "k = 3" | "k = 4" | "k = 5" | "k = 6" | "k = 7" | "k = 8" | "k = 9"
  using assms by atomize_elim arith

lemma digit_char_digit: "k < 10 \<Longrightarrow> is_digit (digit_char k) \<and> digit_val (digit_char k) = int k"
  by (erule cases10) (simp_all add: digit_char_def is_digit_def digit_val_def)

lemma str_nat_digits: "list_all is_digit (str_nat n)"
proof (induction n rule: str_nat.induct)
  case (1 n)
  show ?case
  proof (cases "n < 10")
    case True
    then show ?thesis
      by (subst str_nat.simps) (simp add: digit_char_digit)
  next
    case False
    with 1 show ?thesis
      by (subst str_nat.simps) (simp add: digit_char_digit)
  qed
qed

lemma decimal_value_str_nat: "decimal_value (str_nat n) = int n"
proof (induction n rule: str_nat.induct)
  case (1 n)
  show ?case
  proof (cases "n < 10")
    case True
    then show ?thesis
      by (subst str_nat.simps) (simp add: decimal_value_def digit_char_digit)
  next
    case False
    then have "decimal_value (str_nat n) = 10 * int (n div 10) + int (n mod 10)"
      using 1 by (subst str_nat.simps) (simp add: decimal_value_snoc digit_char_digit)
    also have "\<dots> = int n" by presburger
    finally show ?thesis .
  qed
qed

lemma fmt_02d_digits: "0 \<le> k \<Longrightarrow> list_all is_digit (fmt_02d k)"
  by (simp add: fmt_02d_def Let_def str_nat_digits zeros_digits)

lemma fmt_02d_value: "0 \<le> k \<Longrightarrow> decimal_value (fmt_02d k) = k"
  by (simp add: fmt_02d_def Let_def decimal_value_zeros decimal_value_str_nat)

lemma length_fmt_02d_ge: "0 \<le> k \<Longrightarrow> 2 \<le> length (fmt_02d k)"
  by (simp add: fmt_02d_def Let_def)

lemma length_str_nat_two: "n < 100 \<Longrightarrow> length (str_nat n) \<le> 2"
  by (subst str_nat.simps) (simp add: length_str_nat_small)

lemma length_fmt_02d: "0 \<le> k \<Longrightarrow> k < 100 \<Longrightarrow> length (fmt_02d k) = 2"
  using length_str_nat_two [of "nat k"] by (simp add: fmt_02d_def Let_def)

lemma fmt_02d_ne: "0 \<le> k \<Longrightarrow> fmt_02d k \<noteq> []"
  using length_fmt_02d_ge [of k] by auto

lemma py_int_fmt_02d: "0 \<le> k \<Longrightarrow> py_int (fmt_02d k) = Inr k"
  by (simp add: py_int_def fmt_02d_ne fmt_02d_digits fmt_02d_value)

lemma is_field_fmt_02d: "0 \<le> k \<Longrightarrow> k < 100 \<Longrightarrow> is_field (fmt_02d k)"
  by (simp add: is_field_def length_fmt_02d fmt_02d_digits)

lemma py_strip_id:
  assumes "s \<noteq> []" and "\<not> is_space (hd s)" and "\<not> is_space (last s)"
  shows "py_strip s = s"
proof -
  have "dropWhile is_space s = s"
    using assms(2) by (simp add: dropWhile_eq_self_iff)
  moreover have "dropWhile is_space (rev s) = rev s"
    using assms(1,3) by (simp add: dropWhile_eq_self_iff hd_rev)
  ultimately show ?thesis by (simp add: py_strip_def)
qed

lemma digits_no_colon:
  assumes "list_all is_digit s"
  shows "CHR '':'' \<notin> set s"
proof
  assume "CHR '':'' \<in> set s"
  with assms have "is_digit CHR '':''" by (simp add: list_all_iff)
  then show False by (simp add: is_digit_def)
qed

lemma split_colon_plain: "CHR '':'' \<notin> set a \<Longrightarrow> split_colon a = [a]"
  by (induction a) auto

lemma digits_no_space: "list_all is_digit s \<Longrightarrow> c \<in> set s \<Longrightarrow> \<not> is_space c"
  by (simp add: list_all_iff is_digit_not_space)

lemma split_colon_field: "CHR '':'' \<notin> set a \<Longrightarrow> split_colon (a @ CHR '':'' # r) = a # split_colon r"
  by (induction a) auto

lemma time_bounds:
  fixes n d :: int
  assumes "0 \<le> n" and "0 < d"
  shows "0 \<le> n div d div 60 div 60" "0 \<le> n div d div 60 mod 60" "n div d div 60 mod 60 < 60"
    "0 \<le> n div d mod 60" "n div d mod 60 < 60" "0 \<le> n mod d" "n mod d < d"
  using assms by (simp_all add: pos_imp_zdiv_nonneg_iff)

lemma supported_rate:
  assumes "FRAMERATES label = Some fps"
  shows "py_round fps = 24 \<or> py_round fps = 25 \<or> py_round fps = 30"
proof -
  from assms have "fps = 30 \<or> fps = 1054476685978981 / 35184372088832 \<or> fps = 25 \<or> fps = 24
      \<or> fps = 6748650790265479 / 281474976710656"
    by (simp add: FRAMERATES_def split: if_splits)
  then consider "fps = 30" | "fps = 1054476685978981 / 35184372088832" | "fps = 25"
    | "fps = 24" | "fps = 6748650790265479 / 281474976710656"
    by blast
  then show ?thesis
  proof cases
    case 1
    show ?thesis unfolding 1 by simp
  next
    case 2
    show ?thesis unfolding 2 by simp
  next
    case 3
    show ?thesis unfolding 3 by simp
  next
    case 4
    show ?thesis unfolding 4 by simp
  next
    case 5
    show ?thesis unfolding 5 by simp
  qed
qed

lemma formatted_strip:
  assumes "0 \<le> h" "0 \<le> f"
  shows "py_strip (fmt_02d h @ '':'' @ fmt_02d m @ '':'' @ fmt_02d s @ '':'' @ fmt_02d f)
       = fmt_02d h @ '':'' @ fmt_02d m @ '':'' @ fmt_02d s @ '':'' @ fmt_02d f"
proof (rule py_strip_id)
  let ?out = "fmt_02d h @ '':'' @ fmt_02d m @ '':'' @ fmt_02d s @ '':'' @ fmt_02d f"
  show "?out \<noteq> []" by simp
  have "hd ?out = hd (fmt_02d h)"
    using fmt_02d_ne [OF assms(1)] by simp
  moreover have "hd (fmt_02d h) \<in> set (fmt_02d h)"
    using fmt_02d_ne [OF assms(1)] by simp
  ultimately show "\<not> is_space (hd ?out)"
    using digits_no_space [OF fmt_02d_digits [OF assms(1)]] by simp
  have "last ?out = last (fmt_02d f)"
    using fmt_02d_ne [OF assms(2)] by simp
  moreover have "last (fmt_02d f) \<in> set (fmt_02d f)"
    using fmt_02d_ne [OF assms(2)] by simp
  ultimately show "\<not> is_space (last ?out)"
    using digits_no_space [OF fmt_02d_digits [OF assms(2)]] by simp
qed

lemma roundtrip_general:
  assumes d: "0 < py_round fps" "py_round fps \<le> 100"
    and n: "0 \<le> n" "n < 24 * 3600 * py_round fps"
  shows "\<exists>s. frames_to_tc_string n fps = Inr s \<and> tc_string_to_frames s fps = Some n"
proof -
  define d where "d = py_round fps"
  define h where "h = n div d div 60 div 60"
  define m where "m = n div d div 60 mod 60"
  define s where "s = n div d mod 60"
  define f where "f = n mod d"
  define out where "out = fmt_02d h @ '':'' @ fmt_02d m @ '':'' @ fmt_02d s @ '':'' @ fmt_02d f"
  have dpos: "0 < d" and d100: "d \<le> 100" using assms(1,2) by (simp_all add: d_def)
  have b: "0 \<le> h" "0 \<le> m" "m < 60" "0 \<le> s" "s < 60" "0 \<le> f" "f < d"
    unfolding h_def m_def s_def f_def using time_bounds [OF n(1) dpos] by simp_all
  have h24: "h < 24"
    unfolding h_def using hours_bound [OF dpos] n(2) by (simp add: d_def)
  have fl: "is_field (fmt_02d h)" "is_field (fmt_02d m)" "is_field (fmt_02d s)" "is_field (fmt_02d f)"
    using b h24 d100 by (simp_all add: is_field_fmt_02d)
  have "max 0 n = n" using n(1) by simp
  then have fmt: "frames_to_tc_string n fps = Inr out"
    using frames_to_tc_string_pos [OF d(1), of n]
    by (simp add: out_def h_def m_def s_def f_def d_def)
  have strip: "py_strip out = fmt_02d h @ '':'' @ fmt_02d m @ '':'' @ fmt_02d s @ [CHR '':''] @ fmt_02d f @ []"
    unfolding out_def using formatted_strip [OF b(1) b(6)] by simp
  have sep: "CHR '':'' \<in> set '':;.''" by simp
  have fc: "field_complete (fmt_02d f) []" by (simp add: field_complete_def)
  have "tc_string_to_frames out fps = Some (h * 3600 * d + m * 60 * d + s * d + f)"
    using tc_string_to_frames_fields [OF d(1) fl sep fc strip] b
    by (simp add: fmt_02d_value d_def)
  also have "h * 3600 * d + m * 60 * d + s * d + f = n"
    unfolding h_def m_def s_def f_def by (rule time_recompose)
  finally show ?thesis using fmt by blast
qed

text \<open>
  Claim C1.  Round trip: for every entry of the framerate table, with display rate
  \<open>d\<close> the rounding of its precise value, and every frame count \<open>n\<close> with
  \<open>0 \<le> n < 24 * 3600 * d\<close>, formatting \<open>n\<close> succeeds and parsing the result gives \<open>n\<close>
  back.
\<close>

theorem parse_format_roundtrip:
  assumes "FRAMERATES label = Some fps" and "0 \<le> n" and "n < 24 * 3600 * py_round fps"
  shows "\<exists>s. frames_to_tc_string n fps = Inr s \<and> tc_string_to_frames s fps = Some n"
proof -
  from supported_rate [OF assms(1)] have "0 < py_round fps" "py_round fps \<le> 100"
    by auto
  then show ?thesis
    using assms(2,3) by (rule roundtrip_general)
qed

theorem parse_format_roundtrip_witness:
  "FRAMERATES ''29.97'' = Some (1054476685978981 / 35184372088832)
   \<and> (0::int) \<le> 2591999 \<and> 2591999 < 24 * 3600 * py_round (1054476685978981 / 35184372088832)
   \<and> frames_to_tc_string 2591999 (1054476685978981 / 35184372088832) = Inr ''23:59:59:29''
   \<and> tc_string_to_frames ''23:59:59:29'' (1054476685978981 / 35184372088832) = Some 2591999"
proof -
  have a: "FRAMERATES ''29.97'' = Some (1054476685978981 / 35184372088832)"
    by (simp add: FRAMERATES_def)
  have b: "(0::int) \<le> 2591999" "2591999 < 24 * 3600 * py_round (1054476685978981 / 35184372088832)"
    by simp_all
  have c: "frames_to_tc_string 2591999 (1054476685978981 / 35184372088832) = Inr ''23:59:59:29''"
    by (simp add: frames_to_tc_string_pos fmt_02d_def str_nat.simps digit_char_def)
  from parse_format_roundtrip [OF a b] c
  have "tc_string_to_frames ''23:59:59:29'' (1054476685978981 / 35184372088832) = Some 2591999"
    by simp
  with a b c show ?thesis by simp
qed

lemma split_colon_formatted:
  assumes "0 \<le> h" "0 \<le> m" "0 \<le> s" "0 \<le> f"
  shows "split_colon (fmt_02d h @ '':'' @ fmt_02d m @ '':'' @ fmt_02d s @ '':'' @ fmt_02d f)
       = [fmt_02d h, fmt_02d m, fmt_02d s, fmt_02d f]"
proof -
  have c: "CHR '':'' \<notin> set (fmt_02d h)" "CHR '':'' \<notin> set (fmt_02d m)"
    "CHR '':'' \<notin> set (fmt_02d s)" "CHR '':'' \<notin> set (fmt_02d f)"
    using assms by (simp_all add: digits_no_colon fmt_02d_digits)
  have "split_colon (fmt_02d h @ CHR '':'' # fmt_02d m @ CHR '':'' # fmt_02d s @ CHR '':'' # fmt_02d f)
      = [fmt_02d h, fmt_02d m, fmt_02d s, fmt_02d f]"
    by (simp only: split_colon_field [OF c(1)] split_colon_field [OF c(2)]
        split_colon_field [OF c(3)] split_colon_plain [OF c(4)])
  then show ?thesis by simp
qed

text \<open>
  Claim C10, amended.  As stated, the claim lets only the hours field exceed two digits
  for every display rate \<open>d \<ge> 1\<close>; the frames field does so as well once \<open>d\<close> is
  above 100.  What holds: for a non-negative frame count and a display rate \<open>d \<ge> 1\<close> the
  output splits at its colons into exactly four fields of decimal digits.  The minutes
  and the seconds field hold a value from 0 to 59 in exactly two characters, the frames
  field a value from 0 to \<open>d - 1\<close>, in exactly two characters whenever \<open>d \<le> 100\<close> (every
  entry of the table has \<open>d \<le> 30\<close>).  The hours field is not bounded: 100 hours at
  rate 30 print as \<open>100:00:00:00\<close>.
\<close>

theorem formatted_fields_in_range:
  assumes "0 \<le> n" and "py_round fps = d" and "1 \<le> d"
  shows "(\<exists>out hh mm ss ff h m s f.
            frames_to_tc_string n fps = Inr out
          \<and> split_colon out = [hh, mm, ss, ff]
          \<and> py_int hh = Inr h \<and> py_int mm = Inr m \<and> py_int ss = Inr s \<and> py_int ff = Inr f
          \<and> 0 \<le> h
          \<and> 0 \<le> m \<and> m \<le> 59 \<and> length mm = 2
          \<and> 0 \<le> s \<and> s \<le> 59 \<and> length ss = 2
          \<and> 0 \<le> f \<and> f \<le> d - 1 \<and> (d \<le> 100 \<longrightarrow> length ff = 2))
         \<and> frames_to_tc_string 10800000 30 = Inr ''100:00:00:00''"
proof -
  define h where "h = n div d div 60 div 60"
  define m where "m = n div d div 60 mod 60"
  define s where "s = n div d mod 60"
  define f where "f = n mod d"
  define out where "out = fmt_02d h @ '':'' @ fmt_02d m @ '':'' @ fmt_02d s @ '':'' @ fmt_02d f"
  have dpos: "0 < d" using assms(3) by simp
  have pos: "0 < py_round fps" using assms(2,3) by simp
  have b: "0 \<le> h" "0 \<le> m" "m < 60" "0 \<le> s" "s < 60" "0 \<le> f" "f < d"
    unfolding h_def m_def s_def f_def using time_bounds [OF assms(1) dpos] by simp_all
  have "max 0 n = n" using assms(1) by simp
  then have fmt: "frames_to_tc_string n fps = Inr out"
    using frames_to_tc_string_pos [OF pos, of n] assms(2)
    by (simp add: out_def h_def m_def s_def f_def)
  have sp: "split_colon out = [fmt_02d h, fmt_02d m, fmt_02d s, fmt_02d f]"
    unfolding out_def using b by (intro split_colon_formatted) simp_all
  have vals: "py_int (fmt_02d h) = Inr h" "py_int (fmt_02d m) = Inr m"
    "py_int (fmt_02d s) = Inr s" "py_int (fmt_02d f) = Inr f"
    using b by (simp_all add: py_int_fmt_02d)
  have len: "length (fmt_02d m) = 2" "length (fmt_02d s) = 2"
    "d \<le> 100 \<longrightarrow> length (fmt_02d f) = 2"
    using b by (simp_all add: length_fmt_02d)
  have rng: "m \<le> 59" "s \<le> 59" "f \<le> d - 1"
    using b by simp_all
  have first: "\<exists>out hh mm ss ff h m s f.
            frames_to_tc_string n fps = Inr out
          \<and> split_colon out = [hh, mm, ss, ff]
          \<and> py_int hh = Inr h \<and> py_int mm = Inr m \<and> py_int ss = Inr s \<and> py_int ff = Inr f
          \<and> 0 \<le> h
          \<and> 0 \<le> m \<and> m \<le> 59 \<and> length mm = 2
          \<and> 0 \<le> s \<and> s \<le> 59 \<and> length ss = 2
          \<and> 0 \<le> f \<and> f \<le> d - 1 \<and> (d \<le> 100 \<longrightarrow> length ff = 2)"
    using fmt sp vals len rng b(1,2,4,6) by blast
  have "frames_to_tc_string 10800000 30 = Inr ''100:00:00:00''"
    by (simp add: frames_to_tc_string_pos fmt_02d_def str_nat.simps digit_char_def)
  with first show ?thesis by blast
qed

theorem formatted_fields_in_range_witness:
  "(0::int) \<le> 10799999 \<and> py_round 30 = 30 \<and> (1::int) \<le> 30
   \<and> (\<exists>out hh mm ss ff h m s f.
            frames_to_tc_string 10799999 30 = Inr out
          \<and> split_colon out = [hh, mm, ss, ff]
          \<and> py_int hh = Inr h \<and> py_int mm = Inr m \<and> py_int ss = Inr s \<and> py_int ff = Inr f
          \<and> 0 \<le> h
          \<and> 0 \<le> m \<and> m \<le> 59 \<and> length mm = 2
          \<and> 0 \<le> s \<and> s \<le> 59 \<and> length ss = 2
          \<and> 0 \<le> f \<and> f \<le> 30 - 1 \<and> ((30::int) \<le> 100 \<longrightarrow> length ff = 2))
   \<and> frames_to_tc_string 10799999 30 = Inr ''99:59:59:29''
   \<and> split_colon ''99:59:59:29'' = [''99'', ''59'', ''59'', ''29'']"
proof -
  have a: "(0::int) \<le> 10799999" "py_round 30 = 30" "(1::int) \<le> 30"
    by simp_all
  have b: "frames_to_tc_string 10799999 30 = Inr ''99:59:59:29''"
    by (simp add: frames_to_tc_string_pos fmt_02d_def str_nat.simps digit_char_def)
  have c: "split_colon ''99:59:59:29'' = [''99'', ''59'', ''59'', ''29'']"
    by simp
  from formatted_fields_in_range [OF a] a b c show ?thesis
    by blast
qed

text \<open>
  Claim C10 as stated fails at a display rate of 1000: the function accepts the rate,
  and frame 999 is printed with a frames field of three characters.
\<close>

theorem frames_field_three_digits:
  "(0::int) \<le> 999 \<and> py_round 1000 = 1000 \<and> (1::int) \<le> 1000
   \<and> frames_to_tc_string 999 1000 = Inr ''00:00:00:999''
   \<and> split_colon ''00:00:00:999'' = [''00'', ''00'', ''00'', ''999'']
   \<and> py_int ''999'' = Inr 999
   \<and> 2 < length ''999''"
proof -
  have a: "frames_to_tc_string 999 1000 = Inr ''00:00:00:999''"
    by (simp add: frames_to_tc_string_pos fmt_02d_def str_nat.simps digit_char_def)
  have b: "split_colon ''00:00:00:999'' = [''00'', ''00'', ''00'', ''999'']"
    by simp
  have c: "py_int ''999'' = Inr 999"
    by (simp add: py_int_def is_digit_def decimal_value_def digit_val_def)
  from a b c show ?thesis by simp
qed

lemma frames_to_tc_string_returns: "\<exists>s. frames_to_tc_string n fps = Inr s"
  by (cases "0 < py_round fps")
    (simp_all add: frames_to_tc_string_pos,
      simp add: frames_to_tc_string_def frames_to_tc_string_with_def)

lemma loop_body_paused:
  assumes "t_speed_var t \<le> 0 \<or> t_fps t \<le> 0"
  shows "loop_body t a = Inr ((observe t a)\<lparr>slept := slept a @ [1 / 20], last_time := t_now t\<rparr>, True)"
  using assms by (auto simp: loop_body_def Let_def observe_def)

lemma while_running_paused:
  assumes "\<forall>t \<in> set ts. t_speed_var t \<le> 0 \<or> t_fps t \<le> 0"
  shows "\<exists>a'. while_running ts a = Inr a' \<and> current_frame a' = current_frame a
           \<and> osc_sent a' = osc_sent a \<and> label_updates a' = label_updates a"
  using assms
proof (induction ts arbitrary: a)
  case Nil
  show ?case by simp
next
  case (Cons t ts)
  let ?b = "(observe t a)\<lparr>slept := slept a @ [1 / 20], last_time := t_now t\<rparr>"
  from Cons.prems have p: "t_speed_var t \<le> 0 \<or> t_fps t \<le> 0"
    and rest: "\<forall>t \<in> set ts. t_speed_var t \<le> 0 \<or> t_fps t \<le> 0"
    by simp_all
  show ?case
  proof (cases "t_is_running t")
    case False
    then show ?thesis by (simp add: observe_def)
  next
    case True
    from Cons.IH [OF rest, of ?b] obtain a' where
      "while_running ts ?b = Inr a'" "current_frame a' = current_frame ?b"
      "osc_sent a' = osc_sent ?b" "label_updates a' = label_updates ?b"
      by blast
    with True show ?thesis
      by (simp add: loop_body_paused [OF p] observe_def)
  qed
qed

text \<open>
  Claim C7.  An iteration that observes a speed of zero or below, or a precise
  framerate of zero or below, takes the \<open>continue\<close> branch: the frame counter, the
  messages handed to the OSC client and the texts handed to the label are unchanged, and
  \<open>last_time\<close> becomes the clock reading of that iteration.  Hence a run of the loop in
  which every iteration is paused ends with the frame counter it started from and has
  emitted nothing.
\<close>

theorem paused_tick_is_silent:
  "(t_speed_var t \<le> 0 \<or> t_fps t \<le> 0 \<longrightarrow>
      (\<exists>a'. loop_body t a = Inr (a', True)
            \<and> current_frame a' = current_frame a
            \<and> osc_sent a' = osc_sent a
            \<and> label_updates a' = label_updates a
            \<and> last_time a' = t_now t))
   \<and> ((\<forall>t \<in> set ts. t_speed_var t \<le> 0 \<or> t_fps t \<le> 0) \<longrightarrow>
      (\<exists>a'. timecode_loop initial_frame started ts a = Inr a'
            \<and> current_frame a' = initial_frame
            \<and> osc_sent a' = osc_sent a
            \<and> label_updates a' = label_updates a))"
proof (intro conjI impI)
  assume "t_speed_var t \<le> 0 \<or> t_fps t \<le> 0"
  then show "\<exists>a'. loop_body t a = Inr (a', True)
            \<and> current_frame a' = current_frame a
            \<and> osc_sent a' = osc_sent a
            \<and> label_updates a' = label_updates a
            \<and> last_time a' = t_now t"
    by (simp add: loop_body_paused observe_def)
next
  assume "\<forall>t \<in> set ts. t_speed_var t \<le> 0 \<or> t_fps t \<le> 0"
  from while_running_paused [OF this, of "a\<lparr>current_frame := initial_frame, last_time := started\<rparr>"]
  show "\<exists>a'. timecode_loop initial_frame started ts a = Inr a'
            \<and> current_frame a' = initial_frame
            \<and> osc_sent a' = osc_sent a
            \<and> label_updates a' = label_updates a"
    by (simp add: timecode_loop_def)
qed

theorem paused_tick_is_silent_witness:
  "t_speed_var (tick_at 0 1) \<le> 0 \<and> t_speed_var (tick_at 0 2) \<le> 0
   \<and> (\<exists>a'. loop_body (tick_at 0 1) app_after_setup = Inr (a', True)
            \<and> current_frame a' = current_frame app_after_setup
            \<and> osc_sent a' = osc_sent app_after_setup
            \<and> label_updates a' = label_updates app_after_setup
            \<and> last_time a' = t_now (tick_at 0 1))
   \<and> (\<exists>a'. timecode_loop 45 0 [tick_at 0 1, tick_at 0 2] app_after_setup = Inr a'
            \<and> current_frame a' = 45
            \<and> osc_sent a' = osc_sent app_after_setup
            \<and> label_updates a' = label_updates app_after_setup)"
proof -
  have h1: "t_speed_var (tick_at 0 1) \<le> 0 \<or> t_fps (tick_at 0 1) \<le> 0"
    by (simp add: tick_at_def)
  have h2: "\<forall>t \<in> set [tick_at 0 1, tick_at 0 2]. t_speed_var t \<le> 0 \<or> t_fps t \<le> 0"
    by (simp add: tick_at_def)
  have h3: "t_speed_var (tick_at 0 1) \<le> 0" "t_speed_var (tick_at 0 2) \<le> 0"
    by (simp_all add: tick_at_def)
  from paused_tick_is_silent [of "tick_at 0 1" app_after_setup "[tick_at 0 1, tick_at 0 2]" 45 0]
    h1 h2 h3
  show ?thesis by blast
qed

lemma loop_body_running:
  assumes "0 < t_speed_var t" and "0 < t_fps t"
    and "frames_to_tc_string (current_frame a) (t_fps t) = Inr tc"
  shows "\<exists>a'. loop_body t a = Inr (a', t_is_running_after t)
           \<and> current_frame a' = current_frame a + 1
           \<and> label_updates a' = (if timecode_label a then label_updates a @ [tc] else label_updates a)
           \<and> osc_sent a' =
               (if t_osc_client t \<and> take 1 (t_osc_address_var t) = ''/'' \<and> \<not> t_send_raises t
                then osc_sent a @ [(t_osc_address_var t, tc)] else osc_sent a)
           \<and> a'\<lparr>speed_var := 0, slept := [], last_time := 0\<rparr>
               = (send_osc_message (t_send_raises t) tc (update_timecode_display tc (observe t a)))
                   \<lparr>current_frame := current_frame a + 1, speed_var := 0, slept := [], last_time := 0\<rparr>"
proof -
  have g: "\<not> (t_speed_var t / 100 \<le> 0 \<or> t_fps t \<le> 0)" "t_fps t * (t_speed_var t / 100) \<noteq> 0"
    using assms(1,2) by simp_all
  show ?thesis
    using g assms(3)
    by (cases "t_osc_address_var t")
      (simp_all add: loop_body_def Let_def observe_def update_timecode_display_def
        send_osc_message_def)
qed

text \<open>
  Claim C8.  An iteration whose pause test fails formats the current frame counter with
  the base framerate, hands that string to the label and (when a client and a valid
  address are present and the transport does not raise) to the OSC client, and advances
  the counter by exactly one.  The same iteration observed at any other positive speed
  gives the same state except for the observed speed itself, the sleep and \<open>last_time\<close>.
\<close>

theorem running_tick_advances_one_frame:
  assumes "\<not> (t_speed_var t / 100 \<le> 0 \<or> t_fps t \<le> 0)"
  shows "\<exists>a' tc.
           loop_body t a = Inr (a', t_is_running_after t)
         \<and> frames_to_tc_string (current_frame a) (t_fps t) = Inr tc
         \<and> current_frame a' = current_frame a + 1
         \<and> label_updates a' = (if timecode_label a then label_updates a @ [tc] else label_updates a)
         \<and> osc_sent a' =
             (if t_osc_client t \<and> take 1 (t_osc_address_var t) = ''/'' \<and> \<not> t_send_raises t
              then osc_sent a @ [(t_osc_address_var t, tc)] else osc_sent a)
         \<and> (\<forall>speed. 0 < speed \<longrightarrow>
               (\<exists>b'. loop_body (t\<lparr>t_speed_var := speed\<rparr>) a = Inr (b', t_is_running_after t)
                    \<and> b'\<lparr>speed_var := 0, slept := [], last_time := 0\<rparr>
                        = a'\<lparr>speed_var := 0, slept := [], last_time := 0\<rparr>))"
proof -
  from assms have pos: "0 < t_speed_var t" "0 < t_fps t" by simp_all
  obtain tc where tc: "frames_to_tc_string (current_frame a) (t_fps t) = Inr tc"
    using frames_to_tc_string_returns by blast
  from loop_body_running [OF pos tc] obtain a' where a':
    "loop_body t a = Inr (a', t_is_running_after t)"
    "current_frame a' = current_frame a + 1"
    "label_updates a' = (if timecode_label a then label_updates a @ [tc] else label_updates a)"
    "osc_sent a' =
       (if t_osc_client t \<and> take 1 (t_osc_address_var t) = ''/'' \<and> \<not> t_send_raises t
        then osc_sent a @ [(t_osc_address_var t, tc)] else osc_sent a)"
    "a'\<lparr>speed_var := 0, slept := [], last_time := 0\<rparr>
       = (send_osc_message (t_send_raises t) tc (update_timecode_display tc (observe t a)))
           \<lparr>current_frame := current_frame a + 1, speed_var := 0, slept := [], last_time := 0\<rparr>"
    by blast
  have "\<exists>b'. loop_body (t\<lparr>t_speed_var := speed\<rparr>) a = Inr (b', t_is_running_after t)
            \<and> b'\<lparr>speed_var := 0, slept := [], last_time := 0\<rparr>
                = a'\<lparr>speed_var := 0, slept := [], last_time := 0\<rparr>"
    if "0 < speed" for speed
  proof -
    let ?t = "t\<lparr>t_speed_var := speed\<rparr>"
    have "0 < t_speed_var ?t" "0 < t_fps ?t"
      "frames_to_tc_string (current_frame a) (t_fps ?t) = Inr tc"
      using that pos(2) tc by simp_all
    from loop_body_running [OF this] obtain b' where
      "loop_body ?t a = Inr (b', t_is_running_after ?t)"
      "b'\<lparr>speed_var := 0, slept := [], last_time := 0\<rparr>
        = (send_osc_message (t_send_raises ?t) tc (update_timecode_display tc (observe ?t a)))
           \<lparr>current_frame := current_frame a + 1, speed_var := 0, slept := [], last_time := 0\<rparr>"
      by blast
    moreover have "(send_osc_message (t_send_raises ?t) tc (update_timecode_display tc (observe ?t a)))
           \<lparr>current_frame := current_frame a + 1, speed_var := 0, slept := [], last_time := 0\<rparr>
        = (send_osc_message (t_send_raises t) tc (update_timecode_display tc (observe t a)))
           \<lparr>current_frame := current_frame a + 1, speed_var := 0, slept := [], last_time := 0\<rparr>"
      by (cases "t_osc_address_var t")
        (simp_all add: observe_def update_timecode_display_def send_osc_message_def)
    ultimately show ?thesis
      using a'(5) by simp
  qed
  with a'(1-4) tc show ?thesis by blast
qed

theorem running_tick_advances_one_frame_witness:
  "\<not> (t_speed_var (tick_at 50 1) / 100 \<le> 0 \<or> t_fps (tick_at 50 1) \<le> 0)
   \<and> (\<exists>a' tc.
           loop_body (tick_at 50 1) app_after_setup = Inr (a', True)
         \<and> frames_to_tc_string 0 30 = Inr tc
         \<and> current_frame a' = 1
         \<and> label_updates a' = [tc]
         \<and> osc_sent a' = [(''/timecode'', tc)]
         \<and> (\<forall>speed. 0 < speed \<longrightarrow>
               (\<exists>b'. loop_body ((tick_at 50 1)\<lparr>t_speed_var := speed\<rparr>) app_after_setup = Inr (b', True)
                    \<and> b'\<lparr>speed_var := 0, slept := [], last_time := 0\<rparr>
                        = a'\<lparr>speed_var := 0, slept := [], last_time := 0\<rparr>)))"
proof -
  have h: "\<not> (t_speed_var (tick_at 50 1) / 100 \<le> 0 \<or> t_fps (tick_at 50 1) \<le> 0)"
    by (simp add: tick_at_def)
  have e: "t_is_running_after (tick_at 50 1) = True" "t_fps (tick_at 50 1) = 30"
    "t_osc_client (tick_at 50 1) = True" "t_osc_address_var (tick_at 50 1) = ''/timecode''"
    "t_send_raises (tick_at 50 1) = False"
    "current_frame app_after_setup = 0" "timecode_label app_after_setup = True"
    "label_updates app_after_setup = []" "osc_sent app_after_setup = []"
    by (simp_all add: tick_at_def app_after_setup_def)
  from running_tick_advances_one_frame [OF h, of app_after_setup]
  show ?thesis
    unfolding e using h by simp
qed

text \<open>
  Claim C9.  When the offset text does not parse, \<open>parse_and_set_offset\<close> raises one
  error dialog, stores the offset 0 and writes \<open>00:00:00:00\<close> back to the entry; when
  it parses, the stored offset is the parsed frame count and nothing else changes.
  \<open>reset_timecode\<close> always returns normally, leaves the engine stopped and sets the
  frame counter to the stored offset.
\<close>

theorem offset_and_reset:
  "(tc_string_to_frames (offset_var a) (app_fps a) = None \<longrightarrow>
      error_boxes (parse_and_set_offset a) = error_boxes a @ [''Invalid Offset'']
      \<and> start_frame (parse_and_set_offset a) = 0
      \<and> offset_var (parse_and_set_offset a) = ''00:00:00:00'')
   \<and> (\<forall>k. tc_string_to_frames (offset_var a) (app_fps a) = Some k \<longrightarrow>
      error_boxes (parse_and_set_offset a) = error_boxes a
      \<and> start_frame (parse_and_set_offset a) = k
      \<and> offset_var (parse_and_set_offset a) = offset_var a)
   \<and> (\<exists>a'. reset_timecode send_raises a = Inr a'
          \<and> \<not> is_running a'
          \<and> current_frame a' = start_frame a'
          \<and> start_frame a' =
              (case tc_string_to_frames (offset_var a) (app_fps a) of None \<Rightarrow> 0 | Some k \<Rightarrow> k))"
proof -
  have p1: "tc_string_to_frames (offset_var a) (app_fps a) = None \<longrightarrow>
      error_boxes (parse_and_set_offset a) = error_boxes a @ [''Invalid Offset'']
      \<and> start_frame (parse_and_set_offset a) = 0
      \<and> offset_var (parse_and_set_offset a) = ''00:00:00:00''"
    by (simp add: parse_and_set_offset_def)
  have p2: "\<forall>k. tc_string_to_frames (offset_var a) (app_fps a) = Some k \<longrightarrow>
      error_boxes (parse_and_set_offset a) = error_boxes a
      \<and> start_frame (parse_and_set_offset a) = k
      \<and> offset_var (parse_and_set_offset a) = offset_var a"
    by (simp add: parse_and_set_offset_def)
  define a1 where "a1 = (if is_running a then toggle_play_pause a else a)"
  define a2 where "a2 = parse_and_set_offset a1"
  define a3 where "a3 = a2\<lparr>current_frame := start_frame a2\<rparr>"
  have a1: "\<not> is_running a1" "offset_var a1 = offset_var a" "app_fps a1 = app_fps a"
    by (simp_all add: a1_def toggle_play_pause_def)
  have a3: "\<not> is_running a3" "current_frame a3 = start_frame a3"
    "start_frame a3 = (case tc_string_to_frames (offset_var a) (app_fps a) of None \<Rightarrow> 0 | Some k \<Rightarrow> k)"
    using a1 by (simp_all add: a3_def a2_def parse_and_set_offset_def split: option.split)
  obtain tc where tc: "frames_to_tc_string (current_frame a3) (app_fps a3) = Inr tc"
    using frames_to_tc_string_returns by blast
  define a5 where "a5 = (let a4 = update_timecode_display tc a3
      in if osc_client a4 then send_osc_message send_raises tc a4 else a4)"
  have r: "reset_timecode send_raises a = Inr a5"
    using tc by (simp add: reset_timecode_def Let_def a5_def a3_def a2_def a1_def)
  have keep: "is_running a5 = is_running a3" "current_frame a5 = current_frame a3"
    "start_frame a5 = start_frame a3"
    by (simp_all add: a5_def Let_def update_timecode_display_def send_osc_message_def
        split: list.split)
  from r keep a3 have "\<exists>a'. reset_timecode send_raises a = Inr a'
          \<and> \<not> is_running a'
          \<and> current_frame a' = start_frame a'
          \<and> start_frame a' =
              (case tc_string_to_frames (offset_var a) (app_fps a) of None \<Rightarrow> 0 | Some k \<Rightarrow> k)"
    by simp
  with p1 p2 show ?thesis by blast
qed

theorem offset_and_reset_witness:
  "tc_string_to_frames (offset_var (app_after_setup\<lparr>offset_var := ''bad''\<rparr>))
       (app_fps (app_after_setup\<lparr>offset_var := ''bad''\<rparr>)) = None
   \<and> tc_string_to_frames (offset_var (app_after_setup\<lparr>offset_var := ''00:00:01:15'', is_running := True\<rparr>))
       (app_fps (app_after_setup\<lparr>offset_var := ''00:00:01:15'', is_running := True\<rparr>)) = Some 45
   \<and> error_boxes (parse_and_set_offset (app_after_setup\<lparr>offset_var := ''bad''\<rparr>)) = [''Invalid Offset'']
   \<and> start_frame (parse_and_set_offset (app_after_setup\<lparr>offset_var := ''bad''\<rparr>)) = 0
   \<and> offset_var (parse_and_set_offset (app_after_setup\<lparr>offset_var := ''bad''\<rparr>)) = ''00:00:00:00''
   \<and> start_frame (parse_and_set_offset (app_after_setup\<lparr>offset_var := ''00:00:01:15'', is_running := True\<rparr>)) = 45
   \<and> (\<exists>a'. reset_timecode False (app_after_setup\<lparr>offset_var := ''00:00:01:15'', is_running := True\<rparr>) = Inr a'
          \<and> \<not> is_running a' \<and> current_frame a' = 45 \<and> start_frame a' = 45)"
proof -
  let ?bad = "app_after_setup\<lparr>offset_var := ''bad''\<rparr>"
  let ?good = "app_after_setup\<lparr>offset_var := ''00:00:01:15'', is_running := True\<rparr>"
  have f: "app_fps ?bad = 30" "offset_var ?bad = ''bad''" "error_boxes ?bad = []"
    "app_fps ?good = 30" "offset_var ?good = ''00:00:01:15''"
    by (simp_all add: app_after_setup_def)
  have n: "tc_string_to_frames ''bad'' 30 = None"
    by (simp add: eval_defs)
  have s: "tc_string_to_frames ''00:00:01:15'' 30 = Some 45"
    by (simp add: eval_defs)
  from offset_and_reset [of ?bad False] offset_and_reset [of ?good False]
  show ?thesis
    unfolding f using n s by auto
qed

end
